theory Spec2Isabelle
  imports Complex_Main
begin

section \<open>Numeric model\<close>

text \<open>
  The library computes with Python and numpy floating-point numbers. They are modelled
  as mathematical reals, and the arithmetic operations are the exact ones. The two
  library functions whose limits are attained in IEEE doubles, \<open>norm.cdf\<close> and
  \<open>np.tanh\<close>, are parameters of the functions that call them: they are instantiated
  with the exact functions, and with the functions that saturate as the doubles do
  (the subsection on saturation below). Operations that leave the reals (a division by
  zero, the logarithm of a non-positive number) and every \<open>raise\<close> of the source are
  values of the type \<open>error\<close>, and a fallible computation returns \<open>error + 'a\<close> with
  \<open>Inl\<close> for the failure.
\<close>

datatype error =
    Exception string
  | ZeroDivisionError
  | LogDomainError
  | ValueError
  | RuntimeError

definition bindE :: "error + 'a \<Rightarrow> ('a \<Rightarrow> error + 'b) \<Rightarrow> error + 'b" where
  "bindE m k = (case m of Inl e \<Rightarrow> Inl e | Inr x \<Rightarrow> k x)"

definition py_div :: "real \<Rightarrow> real \<Rightarrow> error + real" where
  "py_div x y = (if y = 0 then Inl ZeroDivisionError else Inr (x / y))"

definition py_log :: "real \<Rightarrow> error + real" where
  "py_log x = (if x \<le> 0 then Inl LogDomainError else Inr (ln x))"


subsection \<open>Strings\<close>

text \<open>\<open>str.upper\<close> on ASCII strings: the letters a to z are mapped to A to Z.\<close>

definition upper_char :: "char \<Rightarrow> char" where
  "upper_char ch =
     (case map_of (zip ''abcdefghijklmnopqrstuvwxyz'' ''ABCDEFGHIJKLMNOPQRSTUVWXYZ'') ch of
        None \<Rightarrow> ch
      | Some u \<Rightarrow> u)"

definition upper :: "string \<Rightarrow> string" where
  "upper s = map upper_char s"

definition FWD :: string where
  "FWD = ''FWD''"

definition CALL :: string where
  "CALL = ''CALL''"

definition PUT :: string where
  "PUT = ''PUT''"

definition STRADDLE :: string where
  "STRADDLE = ''STRADDLE''"

definition unrecognized :: "string \<Rightarrow> error" where
  "unrecognized pt = Exception (''Unrecognized payoff type: '' @ pt)"

subsection \<open>The standard normal distribution\<close>

text \<open>
  Modelled from the spec: the NormalKernel collaborator (\<open>scipy.stats.norm\<close>), which is
  not part of the repository: "standard normal CDF and PDF evaluation".

  \<open>gauss_int x\<close> is the integral of \<open>exp (- t\<^sup>2 / 2)\<close> from \<open>0\<close> to \<open>x\<close>, given by its power
  series \<open>\<Sum>m. (- 1 / 2) ^ m * x ^ (2 * m + 1) / (fact m * (2 * m + 1))\<close>. The cumulative
  distribution function is \<open>1 / 2\<close> plus this integral divided by \<open>sqrt (2 * pi)\<close>, and
  the density is \<open>exp (- x\<^sup>2 / 2) / sqrt (2 * pi)\<close>.
\<close>

definition gauss_coeff :: "nat \<Rightarrow> real" where
  "gauss_coeff n =
     (if even n then 0
      else (- 1 / 2) ^ ((n - 1) div 2) / (fact ((n - 1) div 2) * real n))"

definition gauss_int :: "real \<Rightarrow> real" where
  "gauss_int x = (\<Sum>n. gauss_coeff n * x ^ n)"

definition norm_cdf :: "real \<Rightarrow> real" where
  "norm_cdf x = 1 / 2 + gauss_int x / sqrt (2 * pi)"

definition norm_pdf :: "real \<Rightarrow> real" where
  "norm_pdf x = exp (- x\<^sup>2 / 2) / sqrt (2 * pi)"

subsection \<open>Saturation in double precision\<close>


definition np_tanh :: "real \<Rightarrow> real" where
  "np_tanh x = (if 1 - tanh \<bar>x\<bar> \<le> 1 / 2 ^ 54 then sgn x else tanh x)"

subsection \<open>Bisection\<close>

text \<open>
  Modelled from the spec: the RootFinder collaborator (\<open>scipy.optimize.bisect\<close>), which
  is not part of the repository: a bracketed bisection "requiring \<open>f(lo)\<close> and \<open>f(hi)\<close>
  of opposite sign", which "fails if the precondition is violated" and "iterates to a
  fixed tolerance/iteration cap". An endpoint that is a root is returned at once; the
  tolerances and the cap of 100 iterations are the library's defaults. An exception of
  \<open>f\<close> leaves the solver.
\<close>

definition xtol :: real where
  "xtol = 2 / 10 ^ 12"

definition rtol :: real where
  "rtol = 4 / 2 ^ 52"

definition maxiter :: nat where
  "maxiter = 100"

fun bisect_iter :: "nat \<Rightarrow> (real \<Rightarrow> error + real) \<Rightarrow> real \<Rightarrow> real \<Rightarrow> real \<Rightarrow> error + real" where
  "bisect_iter 0 f xa fa dm = Inl RuntimeError"
| "bisect_iter (Suc n) f xa fa dm =
     (let dm = dm * (1 / 2);
          xm = xa + dm
      in bindE (f xm) (\<lambda>fm.
           let xa = (if fm * fa \<ge> 0 then xm else xa)
           in if fm = 0 \<or> \<bar>dm\<bar> < xtol + rtol * \<bar>xm\<bar> then Inr xm
              else bisect_iter n f xa fa dm))"

definition bisect :: "(real \<Rightarrow> error + real) \<Rightarrow> real \<Rightarrow> real \<Rightarrow> error + real" where
  "bisect f xa xb =
     bindE (f xa) (\<lambda>fa.
     bindE (f xb) (\<lambda>fb.
       if fa = 0 then Inr xa
       else if fb = 0 then Inr xb
       else if (fa < 0) = (fb < 0) then Inl ValueError
       else bisect_iter maxiter f xa fa (xb - xa)))"

section \<open>black\_scholes.py\<close>

text \<open>
  The functions are modelled on scalar arguments (Python floats), for which the
  \<open>isinstance(..., (list, tuple, np.ndarray))\<close> tests of the source are false; the
  payoff type is a string.
\<close>

definition option_price_interval :: "real \<Rightarrow> real \<Rightarrow> real \<Rightarrow> string \<Rightarrow> error + real \<times> real" where
  "option_price_interval fwd pv strike pt =
     (let pt = upper pt in
      if pt \<notin> set [CALL, PUT] then Inl (unrecognized pt)
      else
        let pv_fwd = pv * fwd;
            pv_strike = pv * strike
        in if pt = CALL then Inr (max (pv_fwd - pv_strike) 0, pv_fwd)
           else Inr (max (pv_strike - pv_fwd) 0, pv_strike))"

definition option_intrinsic_value :: "real \<Rightarrow> real \<Rightarrow> string \<Rightarrow> error + real" where
  "option_intrinsic_value spot strike pt =
     (let pt = upper pt in
      if pt \<notin> set [CALL, PUT] then Inl (unrecognized pt)
      else if pt = CALL then Inr (max (spot - strike) 0)
      else Inr (max (strike - spot) 0))"

definition min_val :: real where
  "min_val = 1 / 10 ^ 10"

text \<open>
  \<open>option_price\<close> with the function that is called as \<open>norm.cdf\<close> as its first
  argument, and \<open>option_price\<close> itself with the exact distribution function.
\<close>

definition option_price_with ::
  "(real \<Rightarrow> real) \<Rightarrow> real \<Rightarrow> real \<Rightarrow> real \<Rightarrow> real \<Rightarrow> real \<Rightarrow> string \<Rightarrow> error + real" where
  "option_price_with cdf fwd vol pv strike texp pt =
     (let vol = max vol min_val;
          texp = max texp min_val;
          pt = upper pt
      in if pt \<notin> set [FWD, CALL, PUT, STRADDLE] then Inl (unrecognized pt)
         else if pt = FWD then Inr (pv * (fwd - strike))
         else
           let sqrtvar = vol * sqrt texp in
           bindE (py_div fwd strike) (\<lambda>ratio.
           bindE (py_log ratio) (\<lambda>lg.
           bindE (py_div (lg + 0.5 * sqrtvar\<^sup>2) sqrtvar) (\<lambda>d1.
             let d2 = d1 - sqrtvar;
                 nd1 = cdf d1;
                 nd2 = cdf d2;
                 c = pv * (fwd * nd1 - strike * nd2)
             in if pt = CALL then Inr c
                else
                  let p = c - pv * (fwd - strike)
                  in if pt = PUT then Inr (c - pv * (fwd - strike))
                     else Inr (c + p)))))"

definition option_price :: "real \<Rightarrow> real \<Rightarrow> real \<Rightarrow> real \<Rightarrow> real \<Rightarrow> string \<Rightarrow> error + real" where
  "option_price = option_price_with norm_cdf"

text \<open>
  The result of \<open>option_vol\<close>: a float or the not-a-number sentinel \<open>np.nan\<close>. The
  \<open>try\<close> with its bare \<open>except\<close> turns every exception of the solve into the sentinel.
\<close>

datatype pyfloat = Float real | NaN

definition option_vol_with ::
  "(real \<Rightarrow> real) \<Rightarrow> real \<Rightarrow> real \<Rightarrow> real \<Rightarrow> real \<Rightarrow> real \<Rightarrow> string \<Rightarrow> real \<Rightarrow> real \<Rightarrow> pyfloat" where
  "option_vol_with cdf price fwd pv strike texp pt min_vol max_vol =
     (let bsvol = (\<lambda>vol. option_price_with cdf fwd vol pv strike texp pt);
          target = (\<lambda>v t. bindE (bsvol v) (\<lambda>y. Inr (y - t)))
      in case bisect (\<lambda>v. target v price) min_vol max_vol of
           Inl e \<Rightarrow> NaN
         | Inr vol \<Rightarrow> Float vol)"

definition option_vol :: "real \<Rightarrow> real \<Rightarrow> real \<Rightarrow> real \<Rightarrow> real \<Rightarrow> string \<Rightarrow> real \<Rightarrow> real \<Rightarrow> pyfloat" where
  "option_vol = option_vol_with norm_cdf"

text \<open>The call with the default bounds \<open>min_vol = 0.0\<close> and \<open>max_vol = 20.0\<close>.\<close>

definition option_vol_default :: "real \<Rightarrow> real \<Rightarrow> real \<Rightarrow> real \<Rightarrow> real \<Rightarrow> string \<Rightarrow> pyfloat" where
  "option_vol_default price fwd pv strike texp pt = option_vol price fwd pv strike texp pt 0 20"

text \<open>The dictionary with the keys \<open>'Price'\<close>, \<open>'Delta'\<close>, \<open>'Gamma'\<close> and \<open>'Vega'\<close>.\<close>

record risk =
  Price :: real
  Delta :: real
  Gamma :: real
  Vega :: real

definition option_risk :: "real \<Rightarrow> real \<Rightarrow> real \<Rightarrow> real \<Rightarrow> real \<Rightarrow> string \<Rightarrow> error + risk" where
  "option_risk spot vol rate strike texp pt =
     (let vol = max vol min_val;
          texp = max texp min_val;
          pt = upper pt
      in if pt \<notin> set [CALL, PUT] then Inl (unrecognized pt)
         else
           let pv = exp (- rate * texp) in
           bindE (py_div spot pv) (\<lambda>fwd.
           let sqrtvar = vol * sqrt texp in
           bindE (py_div fwd strike) (\<lambda>ratio.
           bindE (py_log ratio) (\<lambda>lg.
           bindE (py_div (lg + 0.5 * sqrtvar\<^sup>2) sqrtvar) (\<lambda>d1.
             let d2 = d1 - sqrtvar;
                 Nd1 = norm_cdf d1;
                 Nd2 = norm_cdf d2;
                 c = pv * (fwd * Nd1 - strike * Nd2);
                 price = (if pt = CALL then c else c - pv * (fwd - strike));
                 delta = (if pt = CALL then Nd1 else Nd1 - 1);
                 nd1 = norm_pdf d1
             in bindE (py_div nd1 (spot * sqrtvar)) (\<lambda>gamma.
                let vega = spot * nd1 * sqrt texp
                in Inr \<lparr>Price = price, Delta = delta, Gamma = gamma, Vega = vega\<rparr>))))))"

section \<open>implied\_vol.py\<close>

text \<open>
  \<open>build_tanh_prop_moneyness\<close> with the function that is called as \<open>np.tanh\<close> as its
  first argument, and \<open>build_tanh_prop_moneyness\<close> itself with the exact hyperbolic
  tangent.
\<close>

definition build_tanh_prop_moneyness_with ::
  "(real \<Rightarrow> real) \<Rightarrow> real \<Rightarrow> real \<Rightarrow> real \<Rightarrow> real \<Rightarrow> error + real" where
  "build_tanh_prop_moneyness_with th w PV = (\<lambda>K KRef.
     bindE (py_div KRef PV) (\<lambda>fwd_ref.
     bindE (py_div (K - fwd_ref) fwd_ref) (\<lambda>pm.
     bindE (py_div pm w) (\<lambda>q.
       Inr (w * th q)))))"

definition build_tanh_prop_moneyness :: "real \<Rightarrow> real \<Rightarrow> real \<Rightarrow> real \<Rightarrow> error + real" where
  "build_tanh_prop_moneyness = build_tanh_prop_moneyness_with tanh"

definition build_quad_prop_moneyness :: "real \<Rightarrow> real \<Rightarrow> real \<Rightarrow> error + real" where
  "build_quad_prop_moneyness PV = (\<lambda>K KRef.
     bindE (py_div KRef PV) (\<lambda>fwd_ref.
     bindE (py_div (K - fwd_ref) fwd_ref) (\<lambda>pm.
       Inr pm)))"

text \<open>The class \<open>IV_Quad_F\<close>: its fields \<open>self.KRef\<close>, \<open>self.a\<close>, \<open>self.b\<close>, \<open>self.c\<close>, \<open>self.f\<close>.\<close>

record IV_Quad_F =
  self_KRef :: real
  self_a :: real
  self_b :: real
  self_c :: real
  self_f :: "real \<Rightarrow> real \<Rightarrow> error + real"


definition implied_vol :: "IV_Quad_F \<Rightarrow> real \<Rightarrow> real \<Rightarrow> error + real" where
  "implied_vol self K T =
     bindE (self_f self K (self_KRef self)) (\<lambda>m.
       Inr (self_a self + self_b self * m + 0.5 * self_c self * m\<^sup>2))"





section \<open>The distribution extractor as the specification words it\<close>




section \<open>Auxiliary notions\<close>

text \<open>
  The terms of the Black-Scholes formula as functions of the forward, the strike and
  the total volatility \<open>sqrtvar = vol * sqrt texp\<close> (after the clamp).
\<close>

definition sqrtvar_of :: "real \<Rightarrow> real \<Rightarrow> real" where
  "sqrtvar_of vol texp = max vol min_val * sqrt (max texp min_val)"

definition bs_d1 :: "real \<Rightarrow> real \<Rightarrow> real \<Rightarrow> real" where
  "bs_d1 fwd strike s = (ln (fwd / strike) + 0.5 * s\<^sup>2) / s"

definition bs_call_with :: "(real \<Rightarrow> real) \<Rightarrow> real \<Rightarrow> real \<Rightarrow> real \<Rightarrow> real" where
  "bs_call_with cdf fwd strike s =
     fwd * cdf (bs_d1 fwd strike s) - strike * cdf (bs_d1 fwd strike s - s)"

definition bs_call :: "real \<Rightarrow> real \<Rightarrow> real \<Rightarrow> real" where
  "bs_call fwd strike s =
     fwd * norm_cdf (bs_d1 fwd strike s) - strike * norm_cdf (bs_d1 fwd strike s - s)"

definition risk_d1 :: "real \<Rightarrow> real \<Rightarrow> real \<Rightarrow> real \<Rightarrow> real \<Rightarrow> real" where
  "risk_d1 spot vol rate strike texp =
     bs_d1 (spot / exp (- rate * max texp min_val)) strike (sqrtvar_of vol texp)"

text \<open>
  The total mass of the kernel \<open>exp (- x\<^sup>2 / 2)\<close>: twice the supremum of its integral.
  Its value \<open>sqrt (2 * pi)\<close> is derived below from the integrals of the powers of the
  sine over \<open>[0, pi / 2]\<close> and from the moments of the kernel over \<open>[0, \<infinity>)\<close>:
  \<open>sin_pow_int n\<close> and \<open>gauss_moment_int n\<close> are the antiderivatives of \<open>sin x ^ n\<close> and of
  \<open>x ^ n * exp (- x\<^sup>2 / 2)\<close> that vanish at \<open>0\<close>, \<open>wallis n\<close> and \<open>gauss_moment n\<close> are the
  values of the two integrals.
\<close>

definition gauss_mass :: real where
  "gauss_mass = 2 * Sup (range gauss_int)"

fun sin_pow_int :: "nat \<Rightarrow> real \<Rightarrow> real" where
  "sin_pow_int 0 x = x"
| "sin_pow_int (Suc 0) x = 1 - cos x"
| "sin_pow_int (Suc (Suc n)) x =
     (real (Suc n) * sin_pow_int n x - sin x ^ Suc n * cos x) / real (Suc (Suc n))"

definition wallis :: "nat \<Rightarrow> real" where
  "wallis n = sin_pow_int n (pi / 2)"

fun gauss_moment_int :: "nat \<Rightarrow> real \<Rightarrow> real" where
  "gauss_moment_int 0 x = gauss_int x"
| "gauss_moment_int (Suc 0) x = 1 - exp (- x\<^sup>2 / 2)"
| "gauss_moment_int (Suc (Suc n)) x =
     real (Suc n) * gauss_moment_int n x - x ^ Suc n * exp (- x\<^sup>2 / 2)"

fun gauss_moment :: "nat \<Rightarrow> real" where
  "gauss_moment 0 = gauss_mass / 2"
| "gauss_moment (Suc 0) = 1"
| "gauss_moment (Suc (Suc n)) = real (Suc n) * gauss_moment n"

definition gauss_ratio :: real where
  "gauss_ratio = (gauss_mass / 2)\<^sup>2 / (pi / 2)"

section \<open>Basic facts\<close>

lemmas pt_defs = FWD_def CALL_def PUT_def STRADDLE_def

lemma min_val_pos: "0 < min_val"
  by (simp add: min_val_def)

lemma clamp_pos: "0 < max v min_val"
  using min_val_pos by (simp add: max_def)

lemma clamp_nonzero: "max v min_val \<noteq> 0"
  using clamp_pos[of v] by simp

lemma sqrtvar_of_pos: "0 < sqrtvar_of vol texp"
  unfolding sqrtvar_of_def using clamp_pos[of vol] clamp_pos[of texp] by simp

lemma ratio_pos: "0 < fwd \<Longrightarrow> 0 < strike \<Longrightarrow> \<not> fwd / strike \<le> (0::real)"
  by (simp add: not_le)

lemma upper_CALL: "upper ''CALL'' = CALL"
  by (simp add: upper_def upper_char_def CALL_def)

lemma upper_PUT: "upper ''PUT'' = PUT"
  by (simp add: upper_def upper_char_def PUT_def)

lemma option_price_call:
  assumes "0 < fwd" "0 < strike" "upper pt = CALL"
  shows "option_price fwd vol pv strike texp pt =
           Inr (pv * bs_call fwd strike (sqrtvar_of vol texp))"
  using assms
  by (simp add: option_price_def option_price_with_def Let_def bindE_def py_div_def py_log_def pt_defs
      bs_call_def bs_d1_def sqrtvar_of_def clamp_nonzero ratio_pos)

lemma option_price_put:
  assumes "0 < fwd" "0 < strike" "upper pt = PUT"
  shows "option_price fwd vol pv strike texp pt =
           Inr (pv * bs_call fwd strike (sqrtvar_of vol texp) - pv * (fwd - strike))"
  using assms
  by (simp add: option_price_def option_price_with_def Let_def bindE_def py_div_def py_log_def pt_defs
      bs_call_def bs_d1_def sqrtvar_of_def clamp_nonzero ratio_pos)

lemma upper_xyz: "upper ''xyz'' = ''XYZ''"
  by (simp add: upper_def upper_char_def)

lemma option_price_invalid:
  "upper pt \<notin> set [FWD, CALL, PUT, STRADDLE] \<Longrightarrow>
     option_price fwd vol pv strike texp pt = Inl (unrecognized (upper pt))"
  by (simp add: option_price_def option_price_with_def Let_def)

lemma option_vol_invalid:
  assumes "upper pt \<notin> set [FWD, CALL, PUT, STRADDLE]"
  shows "option_vol price fwd pv strike texp pt min_vol max_vol = NaN"
  by (simp add: option_vol_def option_vol_with_def bisect_def bindE_def option_price_invalid[OF assms, unfolded option_price_def])

lemma option_price_clamped:
  "option_price fwd vol pv strike texp pt =
   option_price fwd (max vol (1 / 10 ^ 10)) pv strike (max texp (1 / 10 ^ 10)) pt"
  by (simp add: option_price_def option_price_with_def min_val_def)

lemma option_risk_clamped:
  "option_risk spot vol rate strike texp pt =
   option_risk spot (max vol (1 / 10 ^ 10)) rate strike (max texp (1 / 10 ^ 10)) pt"
  by (simp add: option_risk_def min_val_def)

lemma option_price_total:
  assumes "0 < fwd" "0 < strike" "upper pt \<in> set [FWD, CALL, PUT, STRADDLE]"
  shows "\<exists>y. option_price fwd vol pv strike texp pt = Inr y"
  using assms
  by (simp add: option_price_def option_price_with_def Let_def bindE_def py_div_def py_log_def clamp_nonzero ratio_pos)

lemma option_risk_value:
  assumes "0 < spot" "0 < strike" "upper pt \<in> set [CALL, PUT]"
  shows "option_risk spot vol rate strike texp pt =
    (let pv = exp (- rate * max texp min_val);
         fwd = spot / pv;
         s = sqrtvar_of vol texp;
         d1 = risk_d1 spot vol rate strike texp;
         c = pv * (fwd * norm_cdf d1 - strike * norm_cdf (d1 - s))
     in Inr \<lparr>Price = (if upper pt = CALL then c else c - pv * (fwd - strike)),
             Delta = (if upper pt = CALL then norm_cdf d1 else norm_cdf d1 - 1),
             Gamma = norm_pdf d1 / (spot * s),
             Vega = spot * norm_pdf d1 * sqrt (max texp min_val)\<rparr>)"
proof -
  have "\<not> spot / exp (- rate * max texp min_val) / strike \<le> 0"
    using assms(1,2) by (simp add: not_le)
  moreover have "spot * sqrtvar_of vol texp \<noteq> 0" "sqrtvar_of vol texp \<noteq> 0"
    using assms(1) sqrtvar_of_pos[of vol texp] by simp_all
  ultimately show ?thesis
    using assms
    by (simp add: option_risk_def Let_def bindE_def py_div_def py_log_def
        risk_d1_def bs_d1_def sqrtvar_of_def[symmetric])
qed

lemma quad_moneyness_value:
  assumes "PV \<noteq> 0" "KRef \<noteq> 0"
  shows "build_quad_prop_moneyness PV K KRef = Inr ((K - KRef / PV) / (KRef / PV))"
  using assms by (simp add: build_quad_prop_moneyness_def bindE_def py_div_def)

lemma tanh_moneyness_value:
  assumes "PV \<noteq> 0" "KRef \<noteq> 0" "w \<noteq> 0"
  shows "build_tanh_prop_moneyness w PV K KRef = Inr (w * tanh ((K - KRef / PV) / (KRef / PV) / w))"
  using assms by (simp add: build_tanh_prop_moneyness_def build_tanh_prop_moneyness_with_def bindE_def py_div_def)

lemma at_ref: "PV \<noteq> 0 \<Longrightarrow> KRef \<noteq> 0 \<Longrightarrow> (KRef - KRef / PV) / (KRef / PV) = PV - (1::real)"
  by (simp add: field_simps)

section \<open>Put-call parity\<close>

text \<open>
  Claim C2. For a positive forward and a positive strike the call and the put price
  both exist, and the call price minus the put price is \<open>pv * (fwd - strike)\<close>, for
  every volatility, expiry and discount factor.
\<close>

theorem put_call_parity:
  assumes "0 < fwd" "0 < strike" "upper pc = CALL" "upper pp = PUT"
  shows "\<exists>c p. option_price fwd vol pv strike texp pc = Inr c \<and>
               option_price fwd vol pv strike texp pp = Inr p \<and>
               c - p = pv * (fwd - strike)"
  using assms by (simp add: option_price_call option_price_put)

theorem put_call_parity_witness:
  "\<exists>c p. option_price 100 (1 / 5) 1 90 1 ''CALL'' = Inr c \<and>
         option_price 100 (1 / 5) 1 90 1 ''PUT'' = Inr p \<and>
         c - p = 1 * (100 - 90)"
  using put_call_parity[of 100 90 "''CALL''" "''PUT''" "1 / 5" 1 1] upper_CALL upper_PUT
  by simp

section \<open>Moneyness at the reference strike\<close>

text \<open>
  Claim C3, as amended. For \<open>KRef > 0\<close>, \<open>PV > 0\<close> and \<open>w > 0\<close> the two transforms give
  \<open>PV - 1\<close> and \<open>w * tanh ((PV - 1) / w)\<close> at \<open>K = KRef\<close>; they vanish at the forward of
  the reference strike, \<open>K = KRef / PV\<close>, and there the smile model returns \<open>a\<close> for every
  expiry. (At \<open>K = KRef\<close> they vanish when \<open>PV = 1\<close>.)
\<close>

theorem moneyness_at_reference:
  assumes "0 < KRef" "0 < PV" "0 < w"
  shows "build_quad_prop_moneyness PV KRef KRef = Inr (PV - 1) \<and>
         build_tanh_prop_moneyness w PV KRef KRef = Inr (w * tanh ((PV - 1) / w)) \<and>
         build_quad_prop_moneyness PV (KRef / PV) KRef = Inr 0 \<and>
         build_tanh_prop_moneyness w PV (KRef / PV) KRef = Inr 0 \<and>
         implied_vol \<lparr>self_KRef = KRef, self_a = a, self_b = b, self_c = c,
                      self_f = build_quad_prop_moneyness PV\<rparr> (KRef / PV) T = Inr a \<and>
         implied_vol \<lparr>self_KRef = KRef, self_a = a, self_b = b, self_c = c,
                      self_f = build_tanh_prop_moneyness w PV\<rparr> (KRef / PV) T = Inr a"
proof -
  have nz: "PV \<noteq> 0" "KRef \<noteq> 0" "w \<noteq> 0"
    using assms by simp_all
  have q1: "build_quad_prop_moneyness PV KRef KRef = Inr (PV - 1)"
    using quad_moneyness_value[OF nz(1,2), of KRef] at_ref[OF nz(1,2)] by simp
  have t1: "build_tanh_prop_moneyness w PV KRef KRef = Inr (w * tanh ((PV - 1) / w))"
    unfolding tanh_moneyness_value[OF nz, of KRef] at_ref[OF nz(1,2)] by (rule refl)
  have q0: "build_quad_prop_moneyness PV (KRef / PV) KRef = Inr 0"
    using quad_moneyness_value[OF nz(1,2), of "KRef / PV"] by simp
  have t0: "build_tanh_prop_moneyness w PV (KRef / PV) KRef = Inr 0"
    using tanh_moneyness_value[OF nz, of "KRef / PV"] by simp
  show ?thesis
    using q1 t1 q0 t0 by (simp add: implied_vol_def bindE_def)
qed

theorem moneyness_at_reference_witness:
  "build_quad_prop_moneyness (1 / 2) 100 100 = Inr (1 / 2 - 1) \<and>
   build_tanh_prop_moneyness 1 (1 / 2) 100 100 = Inr (1 * tanh ((1 / 2 - 1) / 1)) \<and>
   build_quad_prop_moneyness (1 / 2) (100 / (1 / 2)) 100 = Inr 0 \<and>
   build_tanh_prop_moneyness 1 (1 / 2) (100 / (1 / 2)) 100 = Inr 0 \<and>
   implied_vol \<lparr>self_KRef = 100, self_a = 1 / 5, self_b = 1, self_c = 0,
                self_f = build_quad_prop_moneyness (1 / 2)\<rparr> (100 / (1 / 2)) 1 = Inr (1 / 5) \<and>
   implied_vol \<lparr>self_KRef = 100, self_a = 1 / 5, self_b = 1, self_c = 0,
                self_f = build_tanh_prop_moneyness 1 (1 / 2)\<rparr> (100 / (1 / 2)) 1 = Inr (1 / 5)"
  using moneyness_at_reference[of 100 "1 / 2" 1 "1 / 5" 1 0 1] by simp

text \<open>
  With \<open>PV = 1/2\<close> and \<open>KRef = 100\<close> the quadratic transform is \<open>- 1/2\<close> at \<open>K = KRef\<close>, and
  the smile with \<open>a = 1/5\<close>, \<open>b = 1\<close>, \<open>c = 0\<close> returns \<open>- 3/10\<close> there, not \<open>a\<close>.
\<close>

theorem moneyness_at_reference_counterexample:
  "build_quad_prop_moneyness (1 / 2) 100 100 = Inr (- 1 / 2) \<and>
   build_quad_prop_moneyness (1 / 2) 100 100 \<noteq> Inr 0 \<and>
   implied_vol \<lparr>self_KRef = 100, self_a = 1 / 5, self_b = 1, self_c = 0,
                self_f = build_quad_prop_moneyness (1 / 2)\<rparr> 100 1 = Inr (- 3 / 10) \<and>
   implied_vol \<lparr>self_KRef = 100, self_a = 1 / 5, self_b = 1, self_c = 0,
                self_f = build_quad_prop_moneyness (1 / 2)\<rparr> 100 1 \<noteq> Inr (1 / 5)"
  by (simp add: build_quad_prop_moneyness_def implied_vol_def bindE_def py_div_def)

section \<open>The bounded moneyness\<close>

text \<open>
  With the exact hyperbolic tangent the transform stays strictly inside \<open>(- w, w)\<close>. The
  saturating \<open>np_tanh\<close> has absolute value at most \<open>1\<close>, and it is exactly \<open>1\<close> at \<open>20\<close>:
  \<open>1 - tanh 20 = 2 * exp (- 40) / (1 + exp (- 40))\<close> is below \<open>1 / 2 ^ 54\<close>.
\<close>

lemma tanh_moneyness_exact_strict:
  assumes "0 < w" "0 < PV" "0 < KRef" "0 < K"
  shows "\<exists>m. build_tanh_prop_moneyness w PV K KRef = Inr m \<and> \<bar>m\<bar> < w"
proof -
  let ?q = "(K - KRef / PV) / (KRef / PV) / w"
  have "\<bar>tanh ?q\<bar> < 1"
    using tanh_real_lt_1[of ?q] tanh_real_gt_neg1[of ?q] by (simp add: abs_less_iff)
  then have "\<bar>w * tanh ?q\<bar> < w"
    using assms(1) by (simp add: abs_mult)
  then show ?thesis
    using assms by (simp add: tanh_moneyness_value)
qed

lemma exp_40: "2 ^ 55 \<le> exp (40 :: real)"
proof -
  have "(13 / 8 :: real) \<le> exp (1 / 2)"
    using exp_lower_Taylor_quadratic[of "1 / 2 :: real"] by (simp add: power2_eq_square)
  then have "(13 / 8 :: real) ^ 80 \<le> exp (1 / 2) ^ 80"
    by (intro power_mono) simp_all
  also have "\<dots> = exp (40 :: real)"
    by (simp add: exp_of_nat_mult[symmetric])
  finally have "(13 / 8 :: real) ^ 80 \<le> exp 40" .
  moreover have "(2::real) ^ 55 \<le> (13 / 8) ^ 80" by (simp add: power_divide)
  ultimately show ?thesis by linarith
qed

lemma tanh_20: "1 - tanh (20 :: real) \<le> 1 / 2 ^ 54"
proof -
  have e: "exp (- 40 :: real) \<le> 1 / 2 ^ 55"
  proof -
    have "1 / exp (40 :: real) \<le> 1 / 2 ^ 55"
      using exp_40 by (intro divide_left_mono) simp_all
    then show ?thesis by (simp add: exp_minus inverse_eq_divide)
  qed
  have "1 - (1 - e) / (1 + e) = 2 * e / (1 + e)" if "0 < e" for e :: real
  proof -
    have "1 + e \<noteq> 0" using that by simp
    then show ?thesis by (simp add: field_simps)
  qed
  from this[of "exp (- 40)"]
  have "1 - tanh (20 :: real) = 2 * exp (- 40) / (1 + exp (- 40))"
    unfolding tanh_real_altdef[of 20] by simp
  also have "\<dots> \<le> 2 * exp (- 40) / 1"
    by (intro divide_left_mono) (simp_all add: add_pos_pos)
  also have "\<dots> \<le> 1 / 2 ^ 54"
    using e by simp
  finally show ?thesis .
qed

lemma np_tanh_20: "np_tanh 20 = 1"
  using tanh_20 by (simp add: np_tanh_def)

lemma np_tanh_abs_le_1: "\<bar>np_tanh x\<bar> \<le> 1"
proof (cases "1 - tanh \<bar>x\<bar> \<le> 1 / 2 ^ 54")
  case True
  then have "np_tanh x = sgn x" by (simp add: np_tanh_def)
  then show ?thesis by (simp add: abs_sgn_eq)
next
  case False
  then have "np_tanh x = tanh x" by (simp add: np_tanh_def)
  then show ?thesis
    using tanh_real_lt_1[of x] tanh_real_gt_neg1[of x] by (simp add: abs_le_iff less_imp_le)
qed

lemma tanh_moneyness_with_value:
  assumes "PV \<noteq> 0" "KRef \<noteq> 0" "w \<noteq> 0"
  shows "build_tanh_prop_moneyness_with th w PV K KRef = Inr (w * th ((K - KRef / PV) / (KRef / PV) / w))"
  using assms by (simp add: build_tanh_prop_moneyness_with_def bindE_def py_div_def)

text \<open>
  Claim C8, as amended. For \<open>w > 0\<close>, \<open>PV > 0\<close>, \<open>KRef > 0\<close> and \<open>K > 0\<close> the tanh transform,
  computed with the hyperbolic tangent as it saturates in doubles, returns a value \<open>m\<close>
  with \<open>\<bar>m\<bar> \<le> w\<close>.
\<close>

theorem tanh_moneyness_bounded:
  assumes "0 < w" "0 < PV" "0 < KRef" "0 < K"
  shows "\<exists>m. build_tanh_prop_moneyness_with np_tanh w PV K KRef = Inr m \<and> \<bar>m\<bar> \<le> w"
proof -
  let ?q = "(K - KRef / PV) / (KRef / PV) / w"
  have "\<bar>w * np_tanh ?q\<bar> = w * \<bar>np_tanh ?q\<bar>"
    using assms(1) by (simp add: abs_mult)
  also have "\<dots> \<le> w * 1"
    using assms(1) np_tanh_abs_le_1[of ?q] by (intro mult_left_mono) simp_all
  finally have "\<bar>w * np_tanh ?q\<bar> \<le> w" by simp
  then show ?thesis
    using assms by (simp add: tanh_moneyness_with_value)
qed

theorem tanh_moneyness_bounded_witness:
  "\<exists>m. build_tanh_prop_moneyness_with np_tanh 1 (1 / 2) 1000 100 = Inr m \<and> \<bar>m\<bar> \<le> 1"
  using tanh_moneyness_bounded[of 1 "1 / 2" 100 1000] by simp

text \<open>
  The bound is attained: with \<open>w = 1/10\<close>, \<open>PV = 1\<close>, \<open>KRef = 100\<close> and \<open>K = 300\<close> the
  proportional moneyness is \<open>2\<close>, the argument of the hyperbolic tangent is \<open>20\<close>, its
  value is \<open>1\<close>, and the transform returns \<open>m = w\<close>, which is not strictly inside
  \<open>(- w, w)\<close>.
\<close>

theorem tanh_moneyness_bounded_counterexample:
  "build_tanh_prop_moneyness_with np_tanh (1 / 10) 1 300 100 = Inr (1 / 10) \<and>
   \<not> (\<exists>m. build_tanh_prop_moneyness_with np_tanh (1 / 10) 1 300 100 = Inr m \<and> \<bar>m\<bar> < 1 / 10)"
proof -
  have "build_tanh_prop_moneyness_with np_tanh (1 / 10) 1 300 100 = Inr (1 / 10)"
    by (simp add: build_tanh_prop_moneyness_with_def bindE_def py_div_def np_tanh_20)
  then show ?thesis by simp
qed

section \<open>Unrecognized payoff types\<close>

text \<open>
  Claim C5, as amended. A payoff string whose upper-cased form is none of \<open>FWD\<close>, \<open>CALL\<close>,
  \<open>PUT\<close>, \<open>STRADDLE\<close> makes \<open>option_price\<close> raise the exception "Unrecognized payoff
  type", and one whose upper-cased form is neither \<open>CALL\<close> nor \<open>PUT\<close> makes \<open>option_risk\<close>,
  \<open>option_price_interval\<close> and \<open>option_intrinsic_value\<close> raise it. \<open>option_vol\<close> does not
  raise: the exception of the pricing function is caught and the not-a-number sentinel
  is returned.
\<close>

theorem invalid_payoff_type:
  "(upper pt \<notin> set [FWD, CALL, PUT, STRADDLE] \<longrightarrow>
      option_price fwd vol pv strike texp pt = Inl (unrecognized (upper pt)) \<and>
      option_vol price fwd pv strike texp pt min_vol max_vol = NaN) \<and>
   (upper pt \<notin> set [CALL, PUT] \<longrightarrow>
      option_risk spot vol rate strike texp pt = Inl (unrecognized (upper pt)) \<and>
      option_price_interval fwd pv strike pt = Inl (unrecognized (upper pt)) \<and>
      option_intrinsic_value spot strike pt = Inl (unrecognized (upper pt)))"
  by (simp add: option_price_invalid option_vol_invalid option_risk_def
      option_price_interval_def option_intrinsic_value_def Let_def)

theorem invalid_payoff_type_witness:
  "option_price 100 (1 / 5) 1 90 1 ''xyz'' = Inl (Exception ''Unrecognized payoff type: XYZ'') \<and>
   option_vol 10 100 1 90 1 ''xyz'' 0 20 = NaN \<and>
   option_risk 100 (1 / 5) 0 90 1 ''xyz'' = Inl (Exception ''Unrecognized payoff type: XYZ'') \<and>
   option_price_interval 100 1 90 ''xyz'' = Inl (Exception ''Unrecognized payoff type: XYZ'') \<and>
   option_intrinsic_value 100 90 ''xyz'' = Inl (Exception ''Unrecognized payoff type: XYZ'')"
  using invalid_payoff_type[of "''xyz''" 100 "1 / 5" 1 90 1 10 0 20 100 0]
  by (simp add: upper_xyz pt_defs unrecognized_def)

text \<open>
  The call \<open>option_vol(10, 100, 1, 90, 1, 'xyz')\<close> returns the sentinel: the invalid payoff
  type is turned into a returned value.
\<close>

theorem option_vol_invalid_payoff_counterexample:
  "option_vol_default 10 100 1 90 1 ''xyz'' = NaN"
  by (simp add: option_vol_default_def option_vol_invalid upper_xyz pt_defs)

section \<open>Clamping of volatility and expiry\<close>

text \<open>
  Claim C9. \<open>option_price\<close> and \<open>option_risk\<close> give the same result for \<open>vol\<close>, \<open>texp\<close> and
  for \<open>max vol 1e-10\<close>, \<open>max texp 1e-10\<close>. For a positive forward (spot) and strike and an
  accepted payoff type the evaluation returns a value, whatever \<open>vol\<close> and \<open>texp\<close> are: no
  division by zero and no logarithm of a non-positive number occurs.
\<close>

theorem silent_clamping:
  "option_price fwd vol pv strike texp pt =
     option_price fwd (max vol (1 / 10 ^ 10)) pv strike (max texp (1 / 10 ^ 10)) pt \<and>
   option_risk spot vol rate strike texp pt =
     option_risk spot (max vol (1 / 10 ^ 10)) rate strike (max texp (1 / 10 ^ 10)) pt \<and>
   (0 < fwd \<and> 0 < strike \<and> upper pt \<in> set [FWD, CALL, PUT, STRADDLE] \<longrightarrow>
      (\<exists>y. option_price fwd vol pv strike texp pt = Inr y)) \<and>
   (0 < spot \<and> 0 < strike \<and> upper pt \<in> set [CALL, PUT] \<longrightarrow>
      (\<exists>r. option_risk spot vol rate strike texp pt = Inr r))"
proof -
  have "\<exists>r. option_risk spot vol rate strike texp pt = Inr r"
    if "0 < spot" "0 < strike" "upper pt \<in> set [CALL, PUT]"
    using option_risk_value[OF that] by (simp add: Let_def)
  then show ?thesis
    using option_price_clamped option_risk_clamped option_price_total by blast
qed

theorem silent_clamping_witness:
  "option_price 100 0 1 90 (- 1) ''CALL'' =
     option_price 100 (max 0 (1 / 10 ^ 10)) 1 90 (max (- 1) (1 / 10 ^ 10)) ''CALL'' \<and>
   option_risk 100 0 0 90 (- 1) ''CALL'' =
     option_risk 100 (max 0 (1 / 10 ^ 10)) 0 90 (max (- 1) (1 / 10 ^ 10)) ''CALL'' \<and>
   (\<exists>y. option_price 100 0 1 90 (- 1) ''CALL'' = Inr y) \<and>
   (\<exists>r. option_risk 100 0 0 90 (- 1) ''CALL'' = Inr r)"
proof -
  have "(0::real) < 100 \<and> (0::real) < 90 \<and> upper ''CALL'' \<in> set [FWD, CALL, PUT, STRADDLE]"
    "(0::real) < 100 \<and> (0::real) < 90 \<and> upper ''CALL'' \<in> set [CALL, PUT]"
    by (simp_all add: upper_CALL)
  then show ?thesis
    using silent_clamping[of 100 0 1 90 "- 1" "''CALL''" 100 0] by blast
qed

section \<open>Greeks of calls and puts\<close>

text \<open>
  Claim C10. For a positive spot and strike the risk bundles of the call and of the
  put exist, have the same Gamma and the same Vega, and the put's Delta is the call's
  Delta minus one.
\<close>

theorem risk_call_put:
  assumes "0 < spot" "0 < strike" "upper pc = CALL" "upper pp = PUT"
  shows "\<exists>rc rp. option_risk spot vol rate strike texp pc = Inr rc \<and>
                 option_risk spot vol rate strike texp pp = Inr rp \<and>
                 Gamma rp = Gamma rc \<and> Vega rp = Vega rc \<and> Delta rp = Delta rc - 1"
proof -
  have "upper pc \<in> set [CALL, PUT]" "upper pp \<in> set [CALL, PUT]" "upper pp \<noteq> CALL"
    using assms(3,4) by (simp_all add: pt_defs)
  then show ?thesis
    using option_risk_value[OF assms(1,2), of pc vol rate texp]
      option_risk_value[OF assms(1,2), of pp vol rate texp] assms(3)
    by (simp add: Let_def)
qed

theorem risk_call_put_witness:
  "\<exists>rc rp. option_risk 100 (1 / 5) 0 100 1 ''CALL'' = Inr rc \<and>
           option_risk 100 (1 / 5) 0 100 1 ''PUT'' = Inr rp \<and>
           Gamma rp = Gamma rc \<and> Vega rp = Vega rc \<and> Delta rp = Delta rc - 1"
  using risk_call_put[of 100 100 "''CALL''" "''PUT''" "1 / 5" 0 1] upper_CALL upper_PUT
  by simp

section \<open>The distribution extractor\<close>

















section \<open>The Gaussian integral\<close>

text \<open>
  The power series \<open>gauss_int\<close> is an antiderivative of \<open>exp (- x\<^sup>2 / 2)\<close>; it is odd,
  strictly increasing and bounded.
\<close>

lemma odd_half: "odd n \<Longrightarrow> Suc (2 * ((n - 1) div 2)) = n"
  by (auto elim: oddE)

lemma gauss_term_odd:
  "gauss_coeff n * x ^ n =
     (if even n then 0
      else (\<lambda>m. (- 1 / 2) ^ m * x ^ Suc (2 * m) / (fact m * real (Suc (2 * m)))) ((n - 1) div 2))"
  by (simp add: gauss_coeff_def odd_half)

lemma gauss_odd_summable:
  "summable (\<lambda>m. (- 1 / 2) ^ m * x ^ Suc (2 * m) / (fact m * real (Suc (2 * m))))"
proof (rule summable_comparison_test')
  show "summable (\<lambda>m. \<bar>x\<bar> * ((x\<^sup>2 / 2) ^ m /\<^sub>R fact m))"
    by (intro summable_mult sums_summable[OF exp_converges])
next
  fix m :: nat
  have pw: "\<bar>x\<bar> ^ (2 * m) = (x\<^sup>2) ^ m"
    by (simp only: power_mult power2_abs)
  have "norm ((- 1 / 2) ^ m * x ^ Suc (2 * m) / (fact m * real (Suc (2 * m))))
      = (1 / 2) ^ m * (\<bar>x\<bar> * \<bar>x\<bar> ^ (2 * m)) / (fact m * real (Suc (2 * m)))"
    by (simp add: abs_mult power_abs abs_divide del: of_nat_Suc)
  also have "\<dots> = \<bar>x\<bar> * ((x\<^sup>2 / 2) ^ m / fact m) / real (Suc (2 * m))"
    unfolding pw by (simp add: power_divide del: of_nat_Suc)
  also have "\<dots> \<le> \<bar>x\<bar> * ((x\<^sup>2 / 2) ^ m / fact m) / 1"
    by (intro divide_left_mono mult_nonneg_nonneg divide_nonneg_nonneg) simp_all
  finally show "norm ((- 1 / 2) ^ m * x ^ Suc (2 * m) / (fact m * real (Suc (2 * m))))
      \<le> \<bar>x\<bar> * ((x\<^sup>2 / 2) ^ m /\<^sub>R fact m)"
    by (simp add: field_simps)
qed

lemma gauss_series_summable: "summable (\<lambda>n. gauss_coeff n * x ^ n)"
  unfolding gauss_term_odd
  by (rule sums_summable[OF sums_if'[OF summable_sums[OF gauss_odd_summable]]])

lemma diffs_gauss_coeff:
  "diffs gauss_coeff n = (if even n then (- 1 / 2) ^ (n div 2) / fact (n div 2) else 0)"
  by (simp add: diffs_def gauss_coeff_def del: of_nat_Suc)

lemma gauss_deriv_series: "(\<lambda>n. diffs gauss_coeff n * x ^ n) sums exp (- x\<^sup>2 / 2)"
proof -
  have "(\<lambda>m. (- x\<^sup>2 / 2) ^ m /\<^sub>R fact m) sums exp (- x\<^sup>2 / 2)"
    by (rule exp_converges)
  from sums_if[OF sums_zero this]
  have "(\<lambda>n. if even n then (- x\<^sup>2 / 2) ^ (n div 2) /\<^sub>R fact (n div 2) else 0) sums exp (- x\<^sup>2 / 2)"
    by simp
  moreover have "(\<lambda>n. if even n then (- x\<^sup>2 / 2) ^ (n div 2) /\<^sub>R fact (n div 2) else 0)
      = (\<lambda>n. diffs gauss_coeff n * x ^ n)"
  proof
    fix n :: nat
    show "(if even n then (- x\<^sup>2 / 2) ^ (n div 2) /\<^sub>R fact (n div 2) else 0)
      = diffs gauss_coeff n * x ^ n"
    proof (cases "even n")
      case True
      then obtain m where n: "n = 2 * m" by (auto elim: evenE)
      have "- x\<^sup>2 / 2 = (- 1 / 2) * x\<^sup>2"
        by simp
      then have "(- x\<^sup>2 / 2) ^ m = ((- 1 / 2) * x\<^sup>2) ^ m"
        by (simp only:)
      also have "\<dots> = (- 1 / 2) ^ m * (x\<^sup>2) ^ m"
        by (rule power_mult_distrib)
      also have "(x\<^sup>2) ^ m = x ^ (2 * m)"
        by (rule power_mult[symmetric])
      finally have "(- x\<^sup>2 / 2) ^ m = (- 1 / 2) ^ m * x ^ (2 * m)" .
      then show ?thesis
        by (simp add: diffs_gauss_coeff n field_simps)
    next
      case False
      then show ?thesis by (simp add: diffs_gauss_coeff)
    qed
  qed
  ultimately show ?thesis by simp
qed

lemma DERIV_gauss_int: "DERIV gauss_int x :> exp (- x\<^sup>2 / 2)"
proof -
  have "DERIV (\<lambda>x. \<Sum>n. gauss_coeff n * x ^ n) x :> (\<Sum>n. diffs gauss_coeff n * x ^ n)"
    by (rule termdiffs_strong_converges_everywhere) (rule gauss_series_summable)
  then show ?thesis
    using sums_unique[OF gauss_deriv_series[of x]]
    by (simp add: gauss_int_def[abs_def])
qed

lemma gauss_int_0: "gauss_int 0 = 0"
proof -
  have "(\<lambda>n. gauss_coeff n * 0 ^ n) = (\<lambda>n. 0)"
  proof
    fix n show "gauss_coeff n * 0 ^ n = 0"
      by (cases n) (simp_all add: gauss_coeff_def)
  qed
  then show ?thesis by (simp add: gauss_int_def)
qed

lemma gauss_int_odd: "gauss_int (- x) = - gauss_int x"
proof -
  have "DERIV (\<lambda>x. gauss_int x + gauss_int (- x)) x :> 0" for x
    by (auto intro!: derivative_eq_intros DERIV_chain2[OF DERIV_gauss_int])
  then have "gauss_int x + gauss_int (- x) = gauss_int 0 + gauss_int (- 0)"
    using DERIV_isconst_all[of "\<lambda>x. gauss_int x + gauss_int (- x)" x 0] by blast
  then show ?thesis by (simp add: gauss_int_0)
qed

lemma gauss_int_strict_mono: "x < y \<Longrightarrow> gauss_int x < gauss_int y"
  by (rule DERIV_pos_imp_increasing[of x y]) (auto intro: DERIV_gauss_int)

lemma gauss_kernel_le: "exp (- x\<^sup>2 / 2) \<le> 2 / (1 + x\<^sup>2)" for x :: real
proof -
  have "(1 + x\<^sup>2) / 2 \<le> 1 + x\<^sup>2 / 2" by (simp add: field_simps)
  also have "\<dots> \<le> exp (x\<^sup>2 / 2)" by (rule exp_ge_add_one_self)
  finally have "(1 + x\<^sup>2) / 2 \<le> exp (x\<^sup>2 / 2)" .
  moreover have "0 < (1 + x\<^sup>2) / 2" by (simp add: add_pos_nonneg)
  ultimately have "inverse (exp (x\<^sup>2 / 2)) \<le> inverse ((1 + x\<^sup>2) / 2)"
    by (rule le_imp_inverse_le)
  then show ?thesis by (simp add: exp_minus inverse_eq_divide)
qed

lemma gauss_int_le_arctan: "0 \<le> x \<Longrightarrow> gauss_int x \<le> 2 * arctan x"
proof -
  assume "0 \<le> x"
  have "(\<lambda>x. 2 * arctan x - gauss_int x) 0 \<le> (\<lambda>x. 2 * arctan x - gauss_int x) x"
  proof (rule DERIV_nonneg_imp_nondecreasing[OF \<open>0 \<le> x\<close>])
    fix t :: real
    have "DERIV (\<lambda>x. 2 * arctan x - gauss_int x) t :> 2 / (1 + t\<^sup>2) - exp (- t\<^sup>2 / 2)"
      by (auto intro!: derivative_eq_intros DERIV_gauss_int simp: field_simps)
    then show "\<exists>y. DERIV (\<lambda>x. 2 * arctan x - gauss_int x) t :> y \<and> 0 \<le> y"
      using gauss_kernel_le[of t] by (intro exI conjI) auto
  qed
  then show ?thesis by (simp add: gauss_int_0)
qed

lemma gauss_int_less_pi: "gauss_int x < pi"
proof (cases "0 \<le> x")
  case True
  then show ?thesis
    using gauss_int_le_arctan[of x] arctan_ubound[of x] by simp
next
  case False
  then have "gauss_int x < gauss_int 0" by (intro gauss_int_strict_mono) simp
  also have "\<dots> = 0" by (rule gauss_int_0)
  also have "0 < pi" by (rule pi_gt_zero)
  finally show ?thesis .
qed

lemma gauss_int_bdd: "bdd_above (range gauss_int)"
  by (rule bdd_aboveI[of _ pi]) (auto intro: less_imp_le gauss_int_less_pi)

lemma gauss_int_less_Sup: "gauss_int x < Sup (range gauss_int)"
proof -
  have "gauss_int x < gauss_int (x + 1)" by (rule gauss_int_strict_mono) simp
  also have "\<dots> \<le> Sup (range gauss_int)"
    by (rule cSup_upper[OF _ gauss_int_bdd]) simp
  finally show ?thesis .
qed

lemma gauss_mass_pos: "0 < gauss_mass"
  using gauss_int_less_Sup[of 0] by (simp add: gauss_mass_def gauss_int_0)

lemma gauss_int_bounds: "- (gauss_mass / 2) < gauss_int x" "gauss_int x < gauss_mass / 2"
  using gauss_int_less_Sup[of x] gauss_int_less_Sup[of "- x"]
  by (simp_all add: gauss_mass_def gauss_int_odd)

subsection \<open>The integrals of the powers of the sine\<close>

lemma DERIV_sin_pow_int: "DERIV (sin_pow_int n) x :> sin x ^ n"
proof (induction n arbitrary: x rule: less_induct)
  case (less n)
  show ?case
  proof (cases n)
    case 0
    have "sin_pow_int 0 = (\<lambda>x. x)" by (rule ext) simp
    then show ?thesis using 0 by simp
  next
    case (Suc m)
    show ?thesis
    proof (cases m)
      case 0
      have "sin_pow_int (Suc 0) = (\<lambda>x. 1 - cos x)" by (rule ext) simp
      moreover have "DERIV (\<lambda>x. 1 - cos x) x :> sin x"
        by (auto intro!: derivative_eq_intros)
      ultimately show ?thesis using Suc 0 by simp
    next
      case (Suc k)
      have f: "sin_pow_int (Suc (Suc k)) =
          (\<lambda>x. (real (Suc k) * sin_pow_int k x - sin x ^ Suc k * cos x) / real (Suc (Suc k)))"
        by (rule ext) simp
      have ih: "DERIV (sin_pow_int k) x :> sin x ^ k"
        using less[of k] Suc \<open>n = Suc m\<close> by simp
      have c: "(cos x)\<^sup>2 = 1 - (sin x)\<^sup>2"
        by (rule cos_squared_eq)
      have "DERIV (\<lambda>x. (real (Suc k) * sin_pow_int k x - sin x ^ Suc k * cos x) / real (Suc (Suc k))) x
          :> (real (Suc k) * sin x ^ k
              - (real (Suc k) * sin x ^ k * cos x * cos x + sin x ^ Suc k * (- sin x)))
             / real (Suc (Suc k))"
        by (auto intro!: derivative_eq_intros ih simp del: of_nat_Suc power_Suc)
      moreover have "real (Suc k) * sin x ^ k
              - (real (Suc k) * sin x ^ k * cos x * cos x + sin x ^ Suc k * (- sin x))
            = real (Suc (Suc k)) * sin x ^ Suc (Suc k)"
      proof -
        have "real (Suc k) * sin x ^ k * cos x * cos x = real (Suc k) * sin x ^ k * (cos x)\<^sup>2"
          by (simp add: power2_eq_square)
        then show ?thesis
          unfolding c by (simp add: algebra_simps power2_eq_square)
      qed
      ultimately show ?thesis
        using Suc \<open>n = Suc m\<close> f by (simp del: of_nat_Suc power_Suc sin_pow_int.simps)
    qed
  qed
qed

lemma sin_pow_int_0: "sin_pow_int n 0 = 0"
  by (induction n "0::real" rule: sin_pow_int.induct) simp_all

lemma wallis_0: "wallis 0 = pi / 2" by (simp add: wallis_def)
lemma wallis_1: "wallis (Suc 0) = 1" by (simp add: wallis_def)
lemma wallis_Suc_Suc: "wallis (Suc (Suc n)) = real (Suc n) / real (Suc (Suc n)) * wallis n"
proof -
  have "wallis (Suc (Suc n)) = (real (Suc n) * wallis n - sin (pi / 2) ^ Suc n * cos (pi / 2)) / real (Suc (Suc n))"
    unfolding wallis_def by (rule sin_pow_int.simps)
  also have "\<dots> = real (Suc n) * wallis n / real (Suc (Suc n))"
    by (simp only: cos_pi_half mult_zero_right diff_zero)
  finally show ?thesis by simp
qed

lemma wallis_pos_pair: "0 < wallis n \<and> 0 < wallis (Suc n)"
proof (induction n)
  case 0
  show ?case by (simp add: wallis_0 wallis_1)
next
  case (Suc n)
  then have "0 < real (Suc n) / real (Suc (Suc n)) * wallis n"
    by (intro mult_pos_pos divide_pos_pos) simp_all
  then show ?case using Suc by (simp only: wallis_Suc_Suc)
qed

lemma wallis_pos: "0 < wallis n"
  using wallis_pos_pair[of n] by simp

lemma wallis_antimono: "wallis (Suc n) \<le> wallis n"
proof -
  let ?f = "\<lambda>x. sin_pow_int n x - sin_pow_int (Suc n) x"
  have d: "\<exists>y. DERIV ?f x :> y \<and> 0 \<le> y" if x: "0 \<le> x" "x \<le> pi / 2" for x
  proof -
    have s: "0 \<le> sin x" "sin x \<le> 1"
      using sin_ge_zero[of x] x by simp_all
    have "DERIV ?f x :> sin x ^ n - sin x ^ Suc n"
      by (intro DERIV_diff DERIV_sin_pow_int)
    moreover have "0 \<le> sin x ^ n - sin x ^ Suc n"
    proof -
      have "sin x ^ n - sin x ^ Suc n = sin x ^ n * (1 - sin x)"
        by (simp add: algebra_simps)
      also have "0 \<le> \<dots>" using s by simp
      finally show ?thesis .
    qed
    ultimately show ?thesis by blast
  qed
  have "?f 0 \<le> ?f (pi / 2)"
    by (rule DERIV_nonneg_imp_nondecreasing[of 0 "pi / 2" ?f]) (use d in auto)
  then show ?thesis by (simp add: sin_pow_int_0 wallis_def)
qed

lemma wallis_prod: "real (Suc n) * (wallis n * wallis (Suc n)) = pi / 2"
proof (induction n)
  case 0
  show ?case by (simp add: wallis_0 wallis_1)
next
  case (Suc n)
  have "real (Suc (Suc n)) * (wallis (Suc n) * wallis (Suc (Suc n)))
      = real (Suc (Suc n)) * (wallis (Suc n) * (real (Suc n) / real (Suc (Suc n)) * wallis n))"
    by (simp only: wallis_Suc_Suc)
  also have "\<dots> = real (Suc n) * (wallis n * wallis (Suc n))"
    by (simp add: field_simps)
  finally have e: "real (Suc (Suc n)) * (wallis (Suc n) * wallis (Suc (Suc n)))
      = real (Suc n) * (wallis n * wallis (Suc n))" .
  show ?case unfolding e by (rule Suc.IH)
qed

subsection \<open>The moments of the Gaussian kernel\<close>

lemma DERIV_gauss_moment_int: "DERIV (gauss_moment_int n) x :> x ^ n * exp (- x\<^sup>2 / 2)"
proof (induction n arbitrary: x rule: less_induct)
  case (less n)
  show ?case
  proof (cases n)
    case 0
    have "gauss_moment_int 0 = gauss_int" by (rule ext) simp
    then show ?thesis using 0 DERIV_gauss_int[of x] by simp
  next
    case (Suc m)
    show ?thesis
    proof (cases m)
      case 0
      have "gauss_moment_int (Suc 0) = (\<lambda>x. 1 - exp (- x\<^sup>2 / 2))" by (rule ext) simp
      moreover have "DERIV (\<lambda>x. 1 - exp (- x\<^sup>2 / 2)) x :> x * exp (- x\<^sup>2 / 2)"
        by (auto intro!: derivative_eq_intros)
      ultimately show ?thesis using Suc 0 by simp
    next
      case (Suc k)
      have f: "gauss_moment_int (Suc (Suc k)) =
          (\<lambda>x. real (Suc k) * gauss_moment_int k x - x ^ Suc k * exp (- x\<^sup>2 / 2))"
        by (rule ext) simp
      have ih: "DERIV (gauss_moment_int k) x :> x ^ k * exp (- x\<^sup>2 / 2)"
        using less[of k] Suc \<open>n = Suc m\<close> by simp
      have e: "DERIV (\<lambda>x. exp (- x\<^sup>2 / 2)) x :> exp (- x\<^sup>2 / 2) * (- x)"
        by (auto intro!: derivative_eq_intros)
      have p: "DERIV (\<lambda>x. x ^ Suc k) x :> real (Suc k) * x ^ k"
        by (auto intro!: derivative_eq_intros simp del: of_nat_Suc power_Suc)
      have d: "DERIV (\<lambda>x. real (Suc k) * gauss_moment_int k x - x ^ Suc k * exp (- x\<^sup>2 / 2)) x
          :> real (Suc k) * (x ^ k * exp (- x\<^sup>2 / 2))
             - (real (Suc k) * x ^ k * exp (- x\<^sup>2 / 2) + exp (- x\<^sup>2 / 2) * (- x) * x ^ Suc k)"
        by (rule DERIV_diff[OF DERIV_cmult[OF ih] DERIV_mult[OF p e]])
      have eq: "real (Suc k) * (x ^ k * exp (- x\<^sup>2 / 2))
             - (real (Suc k) * x ^ k * exp (- x\<^sup>2 / 2) + exp (- x\<^sup>2 / 2) * (- x) * x ^ Suc k)
           = x ^ Suc (Suc k) * exp (- x\<^sup>2 / 2)"
        by (simp add: algebra_simps)
      have "DERIV (gauss_moment_int (Suc (Suc k))) x :> x ^ Suc (Suc k) * exp (- x\<^sup>2 / 2)"
        unfolding f using d unfolding eq .
      then show ?thesis
        using Suc \<open>n = Suc m\<close> by (simp only:)
    qed
  qed
qed

lemma gauss_moment_int_0: "gauss_moment_int n 0 = 0"
  by (induction n "0::real" rule: gauss_moment_int.induct) (simp_all add: gauss_int_0)

lemma gauss_int_tendsto: "(gauss_int \<longlongrightarrow> gauss_mass / 2) at_top"
proof (rule order_tendstoI)
  fix a :: real assume "a < gauss_mass / 2"
  then have "a < Sup (range gauss_int)" by (simp add: gauss_mass_def)
  then obtain y where y: "a < gauss_int y"
    using less_cSup_iff[OF _ gauss_int_bdd, of a] by auto
  have "a < gauss_int x" if "y \<le> x" for x
    using y gauss_int_strict_mono[of y x] that by (cases "x = y") auto
  then show "eventually (\<lambda>x. a < gauss_int x) at_top"
    by (rule eventually_at_top_linorderI)
next
  fix a :: real assume "gauss_mass / 2 < a"
  then have "gauss_int x < a" for x
    using gauss_int_bounds(2)[of x] by simp
  then show "eventually (\<lambda>x. gauss_int x < a) at_top"
    by simp
qed

lemma gauss_kernel_le_exp: "exp (- x\<^sup>2 / 2) \<le> exp (1 / 2) / exp x" for x :: real
proof -
  have "0 \<le> (x - 1)\<^sup>2" by simp
  then have "- x\<^sup>2 / 2 \<le> 1 / 2 - x"
    by (simp add: power2_diff field_simps)
  then have "exp (- x\<^sup>2 / 2) \<le> exp (1 / 2 - x)"
    by (simp only: exp_le_cancel_iff)
  then show ?thesis by (simp add: exp_diff)
qed

lemma power_gauss_tendsto_0: "((\<lambda>x::real. x ^ k * exp (- x\<^sup>2 / 2)) \<longlongrightarrow> 0) at_top"
proof (rule tendsto_sandwich[where f = "\<lambda>x. 0" and h = "\<lambda>x::real. exp (1 / 2) * (x ^ k / exp x)"])
  show "eventually (\<lambda>x::real. 0 \<le> x ^ k * exp (- x\<^sup>2 / 2)) at_top"
    using eventually_ge_at_top[of "0::real"]
    by eventually_elim simp
  show "eventually (\<lambda>x::real. x ^ k * exp (- x\<^sup>2 / 2) \<le> exp (1 / 2) * (x ^ k / exp x)) at_top"
    using eventually_ge_at_top[of "0::real"]
  proof eventually_elim
    case (elim x)
    have "x ^ k * exp (- x\<^sup>2 / 2) \<le> x ^ k * (exp (1 / 2) / exp x)"
      using elim gauss_kernel_le_exp[of x] by (intro mult_left_mono) simp_all
    then show ?case by (simp add: mult_ac)
  qed
  show "((\<lambda>x. 0::real) \<longlongrightarrow> 0) at_top" by simp
  have "((\<lambda>x::real. exp (1 / 2) * (x ^ k / exp x)) \<longlongrightarrow> exp (1 / 2) * 0) at_top"
    by (intro tendsto_mult tendsto_const tendsto_power_div_exp_0)
  then show "((\<lambda>x::real. exp (1 / 2) * (x ^ k / exp x)) \<longlongrightarrow> 0) at_top" by simp
qed

lemma gauss_moment_int_tendsto: "(gauss_moment_int n \<longlongrightarrow> gauss_moment n) at_top"
proof (induction n rule: gauss_moment.induct)
  case 1
  have "gauss_moment_int 0 = gauss_int" by (rule ext) simp
  then show ?case using gauss_int_tendsto by simp
next
  case 2
  have "((\<lambda>x::real. 1 - x ^ 0 * exp (- x\<^sup>2 / 2)) \<longlongrightarrow> 1 - 0) at_top"
    by (intro tendsto_diff tendsto_const power_gauss_tendsto_0)
  moreover have "gauss_moment_int (Suc 0) = (\<lambda>x. 1 - x ^ 0 * exp (- x\<^sup>2 / 2))"
    by (rule ext) simp
  ultimately show ?case by simp
next
  case (3 n)
  have "((\<lambda>x. real (Suc n) * gauss_moment_int n x - x ^ Suc n * exp (- x\<^sup>2 / 2))
          \<longlongrightarrow> real (Suc n) * gauss_moment n - 0) at_top"
    by (intro tendsto_diff tendsto_mult tendsto_const 3 power_gauss_tendsto_0)
  moreover have "gauss_moment_int (Suc (Suc n)) =
      (\<lambda>x. real (Suc n) * gauss_moment_int n x - x ^ Suc n * exp (- x\<^sup>2 / 2))"
    by (rule ext) simp
  ultimately show ?case by (simp del: of_nat_Suc power_Suc)
qed

lemma gauss_moment_pos: "0 < gauss_moment n"
  by (induction n rule: gauss_moment.induct) (simp_all add: gauss_mass_pos del: of_nat_Suc)

lemma moment_quadratic_nonneg:
  "0 \<le> gauss_moment (Suc (Suc n)) - 2 * l * gauss_moment (Suc n) + l\<^sup>2 * gauss_moment n"
proof (rule tendsto_lowerbound)
  let ?Q = "\<lambda>x. gauss_moment_int (Suc (Suc n)) x - 2 * l * gauss_moment_int (Suc n) x
                 + l\<^sup>2 * gauss_moment_int n x"
  show "(?Q \<longlongrightarrow> gauss_moment (Suc (Suc n)) - 2 * l * gauss_moment (Suc n)
            + l\<^sup>2 * gauss_moment n) at_top"
    by (intro tendsto_add tendsto_diff tendsto_mult tendsto_const gauss_moment_int_tendsto)
  have d: "\<exists>y. DERIV ?Q x :> y \<and> 0 \<le> y" if "0 \<le> x" for x
  proof -
    have "DERIV ?Q x :> x ^ Suc (Suc n) * exp (- x\<^sup>2 / 2)
            - 2 * l * (x ^ Suc n * exp (- x\<^sup>2 / 2)) + l\<^sup>2 * (x ^ n * exp (- x\<^sup>2 / 2))"
      by (intro DERIV_add DERIV_diff DERIV_cmult DERIV_gauss_moment_int)
    moreover have "x ^ Suc (Suc n) * exp (- x\<^sup>2 / 2)
            - 2 * l * (x ^ Suc n * exp (- x\<^sup>2 / 2)) + l\<^sup>2 * (x ^ n * exp (- x\<^sup>2 / 2))
          = x ^ n * exp (- x\<^sup>2 / 2) * (x - l)\<^sup>2"
      by (simp add: power2_diff algebra_simps power2_eq_square)
    moreover have "0 \<le> x ^ n * exp (- x\<^sup>2 / 2) * (x - l)\<^sup>2"
      using that by simp
    ultimately show ?thesis by auto
  qed
  have "0 \<le> ?Q x" if "0 \<le> x" for x
  proof -
    have "?Q 0 \<le> ?Q x"
      by (rule DERIV_nonneg_imp_nondecreasing[of 0 x ?Q]) (use that d in auto)
    then show ?thesis by (simp add: gauss_moment_int_0 del: gauss_moment_int.simps)
  qed
  then show "eventually (\<lambda>x. 0 \<le> ?Q x) at_top"
    by (rule eventually_at_top_linorderI)
  show "(at_top :: real filter) \<noteq> bot" by simp
qed

lemma moment_log_convex:
  "(gauss_moment (Suc n))\<^sup>2 \<le> gauss_moment n * gauss_moment (Suc (Suc n))"
proof -
  define a b c where "a = gauss_moment n" and "b = gauss_moment (Suc n)"
    and "c = gauss_moment (Suc (Suc n))"
  have a: "0 < a" unfolding a_def by (rule gauss_moment_pos)
  have "0 \<le> c - 2 * (b / a) * b + (b / a)\<^sup>2 * a"
    unfolding a_def b_def c_def by (rule moment_quadratic_nonneg)
  also have "c - 2 * (b / a) * b + (b / a)\<^sup>2 * a = c - b\<^sup>2 / a"
    using a by (simp add: power2_eq_square field_simps)
  finally have "b\<^sup>2 / a \<le> c" by simp
  then have "b\<^sup>2 \<le> c * a" using a by (simp add: pos_divide_le_eq)
  then show ?thesis unfolding a_def b_def c_def by (simp add: mult.commute)
qed

lemma moment_step: "(gauss_moment (Suc n))\<^sup>2 \<le> real (Suc n) * (gauss_moment n)\<^sup>2"
  using moment_log_convex[of n] by (simp add: power2_eq_square mult_ac del: of_nat_Suc)

lemma moment_sq:
  "(gauss_moment n)\<^sup>2 = fact n * wallis n * (if even n then gauss_ratio else 1)"
proof (induction n rule: gauss_moment.induct)
  case 1
  show ?case by (simp add: wallis_0 gauss_ratio_def)
next
  case 2
  show ?case by (simp add: wallis_1)
next
  case (3 n)
  have "(gauss_moment (Suc (Suc n)))\<^sup>2 = (real (Suc n))\<^sup>2 * (gauss_moment n)\<^sup>2"
    by (simp add: power_mult_distrib del: of_nat_Suc)
  also have "\<dots> = (real (Suc n))\<^sup>2 * (fact n * wallis n * (if even n then gauss_ratio else 1))"
    by (simp only: 3)
  also have "\<dots> = fact (Suc (Suc n)) * wallis (Suc (Suc n)) * (if even (Suc (Suc n)) then gauss_ratio else 1)"
    by (simp add: wallis_Suc_Suc power2_eq_square del: of_nat_Suc)
  finally show ?case .
qed

subsection \<open>The value of the Gaussian integral\<close>

text \<open>
  The squares of the moments are \<open>fact n * wallis n\<close>, times \<open>gauss_ratio\<close> for even \<open>n\<close>.
  The moments are logarithmically convex and the sine integrals decrease, which
  encloses \<open>gauss_ratio\<close> between \<open>(m + 1) / (m + 2)\<close> and \<open>(m + 2) / (m + 1)\<close> for
  every even \<open>m\<close>.
\<close>

lemma gauss_ratio_lower:
  assumes "even m"
  shows "real (Suc m) / real (Suc (Suc m)) \<le> gauss_ratio"
proof -
  have "fact (Suc m) * wallis (Suc m) \<le> real (Suc m) * (fact m * wallis m * gauss_ratio)"
    using moment_step[of m] assms by (simp only: moment_sq) simp
  then have "fact (Suc m) * wallis (Suc m) \<le> fact (Suc m) * (wallis m * gauss_ratio)"
    by (simp add: mult_ac del: of_nat_Suc)
  then have "wallis (Suc m) \<le> wallis m * gauss_ratio"
    by (simp only: mult_le_cancel_left_pos[OF fact_gt_zero])
  moreover have "real (Suc m) / real (Suc (Suc m)) * wallis m \<le> wallis (Suc m)"
    using wallis_antimono[of "Suc m"] by (simp only: wallis_Suc_Suc)
  ultimately have "wallis m * (real (Suc m) / real (Suc (Suc m))) \<le> wallis m * gauss_ratio"
    by (simp add: mult.commute)
  then show ?thesis
    by (simp only: mult_le_cancel_left_pos[OF wallis_pos])
qed

lemma gauss_ratio_upper:
  assumes "even m"
  shows "gauss_ratio * (real (Suc m) / real (Suc (Suc m))) \<le> 1"
proof -
  have "fact (Suc (Suc m)) * wallis (Suc (Suc m)) * gauss_ratio
      \<le> real (Suc (Suc m)) * (fact (Suc m) * wallis (Suc m))"
    using moment_step[of "Suc m"] assms by (simp only: moment_sq) simp
  then have "fact (Suc (Suc m)) * (wallis (Suc (Suc m)) * gauss_ratio)
      \<le> fact (Suc (Suc m)) * wallis (Suc m)"
    by (simp add: mult_ac del: of_nat_Suc)
  then have "wallis (Suc (Suc m)) * gauss_ratio \<le> wallis (Suc m)"
    by (simp only: mult_le_cancel_left_pos[OF fact_gt_zero])
  also have "\<dots> \<le> wallis m" by (rule wallis_antimono)
  finally have "wallis m * (gauss_ratio * (real (Suc m) / real (Suc (Suc m)))) \<le> wallis m * 1"
    by (simp only: wallis_Suc_Suc) (simp add: mult_ac)
  then show ?thesis
    by (simp only: mult_le_cancel_left_pos[OF wallis_pos])
qed

lemma gauss_ratio_eq_1: "gauss_ratio = 1"
proof (rule antisym)
  show "gauss_ratio \<le> 1"
  proof (rule ccontr)
    assume "\<not> gauss_ratio \<le> 1"
    then have "0 < gauss_ratio - 1" by simp
    then obtain n where n: "inverse (real (Suc n)) < gauss_ratio - 1"
      using reals_Archimedean by blast
    have "gauss_ratio * (real (Suc (2 * n)) / real (Suc (Suc (2 * n)))) \<le> 1"
      by (rule gauss_ratio_upper) simp
    then have "gauss_ratio * real (Suc (2 * n)) \<le> real (Suc (Suc (2 * n)))"
      by (simp add: field_simps del: of_nat_Suc)
    then have "(gauss_ratio - 1) * real (Suc (2 * n)) \<le> 1"
      by (simp add: algebra_simps)
    moreover have "1 < (gauss_ratio - 1) * real (Suc n)"
      using n by (simp add: field_simps)
    moreover have "(gauss_ratio - 1) * real (Suc n) \<le> (gauss_ratio - 1) * real (Suc (2 * n))"
      using \<open>0 < gauss_ratio - 1\<close> by (intro mult_left_mono) simp_all
    ultimately show False by linarith
  qed
next
  show "1 \<le> gauss_ratio"
  proof (rule ccontr)
    assume "\<not> 1 \<le> gauss_ratio"
    then have "0 < 1 - gauss_ratio" by simp
    then obtain n where n: "inverse (real (Suc n)) < 1 - gauss_ratio"
      using reals_Archimedean by blast
    have "real (Suc (2 * n)) / real (Suc (Suc (2 * n))) \<le> gauss_ratio"
      by (rule gauss_ratio_lower) simp
    then have "real (Suc (2 * n)) \<le> gauss_ratio * real (Suc (Suc (2 * n)))"
      by (simp add: field_simps del: of_nat_Suc)
    then have "(1 - gauss_ratio) * real (Suc (Suc (2 * n))) \<le> 1"
      by (simp add: algebra_simps)
    moreover have "1 < (1 - gauss_ratio) * real (Suc n)"
      using n by (simp add: field_simps)
    moreover have "(1 - gauss_ratio) * real (Suc n) \<le> (1 - gauss_ratio) * real (Suc (Suc (2 * n)))"
      using \<open>0 < 1 - gauss_ratio\<close> by (intro mult_left_mono) simp_all
    ultimately show False by linarith
  qed
qed

lemma gauss_mass_eq: "gauss_mass = sqrt (2 * pi)"
proof -
  have "(gauss_mass / 2)\<^sup>2 = pi / 2"
    using gauss_ratio_eq_1 by (simp add: gauss_ratio_def)
  then have "gauss_mass\<^sup>2 = 2 * pi"
    by (simp add: power_divide)
  then have "sqrt (gauss_mass\<^sup>2) = sqrt (2 * pi)" by simp
  then show ?thesis using gauss_mass_pos by simp
qed

section \<open>The normal distribution function\<close>

text \<open>
  \<open>norm_cdf\<close> is strictly increasing with values in the open unit interval, its
  derivative is \<open>norm_pdf\<close>, and \<open>norm_cdf (- x) = 1 - norm_cdf x\<close>.
\<close>

lemma norm_cdf_mass: "norm_cdf x = 1 / 2 + gauss_int x / gauss_mass"
  by (simp add: norm_cdf_def gauss_mass_eq)

lemma norm_cdf_pos: "0 < norm_cdf x"
proof -
  have "- (gauss_mass / 2) / gauss_mass < gauss_int x / gauss_mass"
    by (rule divide_strict_right_mono[OF gauss_int_bounds(1) gauss_mass_pos])
  moreover have "- (gauss_mass / 2) / gauss_mass = - (1 / 2)"
    using gauss_mass_pos by simp
  ultimately show ?thesis unfolding norm_cdf_mass by linarith
qed

lemma norm_cdf_less_1: "norm_cdf x < 1"
proof -
  have "gauss_int x / gauss_mass < (gauss_mass / 2) / gauss_mass"
    by (rule divide_strict_right_mono[OF gauss_int_bounds(2) gauss_mass_pos])
  moreover have "(gauss_mass / 2) / gauss_mass = 1 / 2"
    using gauss_mass_pos by simp
  ultimately show ?thesis unfolding norm_cdf_mass by linarith
qed

lemma norm_cdf_minus: "norm_cdf (- x) = 1 - norm_cdf x"
  by (simp add: norm_cdf_mass gauss_int_odd)

lemma DERIV_norm_cdf: "DERIV norm_cdf x :> exp (- x\<^sup>2 / 2) / gauss_mass"
  unfolding norm_cdf_mass[abs_def]
  using gauss_mass_pos by (auto intro!: derivative_eq_intros DERIV_gauss_int)

lemma norm_cdf_mono: "x \<le> y \<Longrightarrow> norm_cdf x \<le> norm_cdf y"
  using gauss_int_strict_mono[of x y] gauss_mass_pos
  by (cases "x = y") (simp_all add: norm_cdf_mass divide_right_mono less_imp_le)

lemma norm_cdf_small: assumes "0 < d" shows "\<exists>t. \<forall>s\<le>t. norm_cdf s < d"
proof -
  have "Sup (range gauss_int) - d * gauss_mass < Sup (range gauss_int)"
    using assms gauss_mass_pos by simp
  then obtain y where y: "Sup (range gauss_int) - d * gauss_mass < gauss_int y"
    using less_cSup_iff[OF _ gauss_int_bdd, of "Sup (range gauss_int) - d * gauss_mass"] by auto
  have "norm_cdf (- y) < d"
  proof -
    have "gauss_mass / 2 - gauss_int y < d * gauss_mass"
      using y by (simp add: gauss_mass_def)
    then have "(gauss_mass / 2 - gauss_int y) / gauss_mass < d"
      using gauss_mass_pos by (simp add: field_simps)
    moreover have "norm_cdf (- y) = (gauss_mass / 2 - gauss_int y) / gauss_mass"
      using gauss_mass_pos by (simp add: norm_cdf_mass gauss_int_odd field_simps)
    ultimately show ?thesis by simp
  qed
  then have "\<forall>s\<le>- y. norm_cdf s < d"
    using norm_cdf_mono by (meson le_less_trans)
  then show ?thesis ..
qed

lemma DERIV_norm_cdf_pdf: "DERIV norm_cdf x :> norm_pdf x"
  using DERIV_norm_cdf[of x] by (simp add: norm_pdf_def gauss_mass_eq)

text \<open>
  The bound on the Mills ratio: \<open>norm_cdf t\<close> is below its derivative divided by \<open>- t\<close>
  for negative \<open>t\<close>. Hence \<open>norm_cdf t * exp (t\<^sup>2 / 2)\<close> is strictly increasing.
\<close>

lemma DERIV_mills_gap:
  assumes "t < 0"
  shows "DERIV (\<lambda>t. exp (- t\<^sup>2 / 2) / (gauss_mass * (- t)) - norm_cdf t) t
           :> exp (- t\<^sup>2 / 2) / (gauss_mass * t\<^sup>2)"
  using assms gauss_mass_pos
  by (auto intro!: derivative_eq_intros DERIV_norm_cdf simp: field_simps power2_eq_square)

lemma mills_gap_mono:
  assumes "s < t" "t < 0"
  shows "exp (- s\<^sup>2 / 2) / (gauss_mass * (- s)) - norm_cdf s
       < exp (- t\<^sup>2 / 2) / (gauss_mass * (- t)) - norm_cdf t"
proof (rule DERIV_pos_imp_increasing[OF assms(1)])
  fix x assume "s \<le> x" "x \<le> t"
  then have x: "x < 0" using assms(2) by simp
  then have "0 < exp (- x\<^sup>2 / 2) / (gauss_mass * x\<^sup>2)"
    using gauss_mass_pos by simp
  then show "\<exists>y. DERIV (\<lambda>t. exp (- t\<^sup>2 / 2) / (gauss_mass * (- t)) - norm_cdf t) x :> y \<and> 0 < y"
    using DERIV_mills_gap[OF x] by blast
qed

lemma mills_ratio:
  assumes "t < 0"
  shows "norm_cdf t < exp (- t\<^sup>2 / 2) / (gauss_mass * (- t))"
proof (rule ccontr)
  define u where "u = (\<lambda>t. exp (- t\<^sup>2 / 2) / (gauss_mass * (- t)) - norm_cdf t)"
  assume "\<not> norm_cdf t < exp (- t\<^sup>2 / 2) / (gauss_mass * (- t))"
  then have "u t \<le> 0" by (simp add: u_def)
  moreover have "u (t - 1) < u t"
    unfolding u_def using assms by (intro mills_gap_mono) simp_all
  ultimately have d: "0 < - u (t - 1)" by simp
  obtain t' where t': "\<forall>s\<le>t'. norm_cdf s < - u (t - 1)"
    using norm_cdf_small[OF d] by blast
  define s where "s = min t' (t - 2)"
  have s: "s < t - 1" "s \<le> t'" "s < 0" using assms by (simp_all add: s_def)
  have "u s < u (t - 1)"
    unfolding u_def using s(1) assms by (intro mills_gap_mono) simp_all
  moreover have "0 < exp (- s\<^sup>2 / 2) / (gauss_mass * (- s))"
    using s(3) gauss_mass_pos by (intro divide_pos_pos mult_pos_pos) simp_all
  then have "- norm_cdf s \<le> u s"
    unfolding u_def by linarith
  moreover have "norm_cdf s < - u (t - 1)"
    using t' s(2) by blast
  ultimately show False by linarith
qed

lemma mills_pos: "0 < exp (- t\<^sup>2 / 2) / gauss_mass + t * norm_cdf t"
proof (cases "t < 0")
  case True
  have "norm_cdf t * (- t) < exp (- t\<^sup>2 / 2) / (gauss_mass * (- t)) * (- t)"
    using mills_ratio[OF True] True by (intro mult_strict_right_mono) simp_all
  also have "\<dots> = exp (- t\<^sup>2 / 2) / gauss_mass"
    using True by simp
  finally show ?thesis by (simp add: mult.commute)
next
  case False
  then have "0 \<le> t * norm_cdf t"
    using norm_cdf_pos[of t] by simp
  moreover have "0 < exp (- t\<^sup>2 / 2) / gauss_mass"
    using gauss_mass_pos by simp
  ultimately show ?thesis by linarith
qed

lemma DERIV_cdf_times_exp:
  "DERIV (\<lambda>t. norm_cdf t * exp (t\<^sup>2 / 2)) t
     :> exp (t\<^sup>2 / 2) * (exp (- t\<^sup>2 / 2) / gauss_mass + t * norm_cdf t)"
  by (auto intro!: derivative_eq_intros DERIV_norm_cdf simp: field_simps)

lemma cdf_times_exp_mono:
  assumes "a < b"
  shows "norm_cdf a * exp (a\<^sup>2 / 2) < norm_cdf b * exp (b\<^sup>2 / 2)"
proof (rule DERIV_pos_imp_increasing[OF assms])
  fix x :: real
  have "0 < exp (x\<^sup>2 / 2) * (exp (- x\<^sup>2 / 2) / gauss_mass + x * norm_cdf x)"
    using mills_pos[of x] by simp
  then show "\<exists>y. DERIV (\<lambda>t. norm_cdf t * exp (t\<^sup>2 / 2)) x :> y \<and> 0 < y"
    using DERIV_cdf_times_exp[of x] by blast
qed

section \<open>The Black-Scholes formula\<close>

text \<open>
  With \<open>d1 = bs_d1 fwd strike s\<close> and \<open>d2 = d1 - s\<close> one has
  \<open>strike * exp (d1\<^sup>2 / 2) = fwd * exp (d2\<^sup>2 / 2)\<close>. The undiscounted call value lies strictly
  between \<open>max (fwd - strike) 0\<close> and \<open>fwd\<close>, and its derivative in the total volatility
  \<open>s\<close> is \<open>fwd * exp (- d1\<^sup>2 / 2) / gauss_mass\<close>, which is positive.
\<close>

lemma bs_d1_square_diff:
  assumes "0 < fwd" "0 < strike" "0 < s"
  shows "(bs_d1 fwd strike s)\<^sup>2 / 2 = ln (fwd / strike) + (bs_d1 fwd strike s - s)\<^sup>2 / 2"
proof -
  have h: "s * bs_d1 fwd strike s = ln (fwd / strike) + s\<^sup>2 / 2"
    using assms(3) by (simp add: bs_d1_def)
  have e: "(bs_d1 fwd strike s - s)\<^sup>2 = (bs_d1 fwd strike s)\<^sup>2 - 2 * (s * bs_d1 fwd strike s) + s\<^sup>2"
    by (simp add: power2_diff mult.commute)
  show ?thesis
    unfolding e h by (simp add: field_simps)
qed

lemma bs_exp_ratio:
  assumes "0 < fwd" "0 < strike" "0 < s"
  shows "strike * exp ((bs_d1 fwd strike s)\<^sup>2 / 2) = fwd * exp ((bs_d1 fwd strike s - s)\<^sup>2 / 2)"
proof -
  have "exp ((bs_d1 fwd strike s)\<^sup>2 / 2) = (fwd / strike) * exp ((bs_d1 fwd strike s - s)\<^sup>2 / 2)"
    unfolding bs_d1_square_diff[OF assms] using assms(1,2) by (simp add: exp_add)
  then show ?thesis using assms(2) by (simp add: field_simps)
qed

lemma bs_call_pos:
  assumes "0 < fwd" "0 < strike" "0 < s"
  shows "0 < bs_call fwd strike s"
proof -
  let ?d1 = "bs_d1 fwd strike s" and ?d2 = "bs_d1 fwd strike s - s"
  have "norm_cdf ?d2 * exp (?d2\<^sup>2 / 2) < norm_cdf ?d1 * exp (?d1\<^sup>2 / 2)"
    using assms(3) by (intro cdf_times_exp_mono) simp
  then have "strike * (norm_cdf ?d2 * exp (?d2\<^sup>2 / 2)) < strike * (norm_cdf ?d1 * exp (?d1\<^sup>2 / 2))"
    using assms(2) by simp
  also have "\<dots> = norm_cdf ?d1 * (fwd * exp (?d2\<^sup>2 / 2))"
    using bs_exp_ratio[OF assms] by (simp add: mult_ac)
  finally have "(strike * norm_cdf ?d2) * exp (?d2\<^sup>2 / 2) < (fwd * norm_cdf ?d1) * exp (?d2\<^sup>2 / 2)"
    by (simp add: mult_ac)
  then have "strike * norm_cdf ?d2 < fwd * norm_cdf ?d1"
    by (simp only: mult_less_cancel_right_pos[OF exp_gt_zero])
  then show ?thesis by (simp add: bs_call_def)
qed

lemma bs_call_gt_forward:
  assumes "0 < fwd" "0 < strike" "0 < s"
  shows "fwd - strike < bs_call fwd strike s"
proof -
  let ?d1 = "bs_d1 fwd strike s" and ?d2 = "bs_d1 fwd strike s - s"
  have "norm_cdf (- ?d1) * exp ((- ?d1)\<^sup>2 / 2) < norm_cdf (- ?d2) * exp ((- ?d2)\<^sup>2 / 2)"
    using assms(3) by (intro cdf_times_exp_mono) simp
  then have "norm_cdf (- ?d1) * exp (?d1\<^sup>2 / 2) < norm_cdf (- ?d2) * exp (?d2\<^sup>2 / 2)"
    by (simp only: power2_minus)
  then have "strike * (norm_cdf (- ?d1) * exp (?d1\<^sup>2 / 2)) < strike * (norm_cdf (- ?d2) * exp (?d2\<^sup>2 / 2))"
    by (rule mult_strict_left_mono[OF _ assms(2)])
  moreover have "strike * (norm_cdf (- ?d1) * exp (?d1\<^sup>2 / 2)) = norm_cdf (- ?d1) * (fwd * exp (?d2\<^sup>2 / 2))"
    using bs_exp_ratio[OF assms] by (simp add: mult_ac)
  ultimately have "(fwd * norm_cdf (- ?d1)) * exp (?d2\<^sup>2 / 2) < (strike * norm_cdf (- ?d2)) * exp (?d2\<^sup>2 / 2)"
    by (simp add: mult_ac)
  then have "fwd * norm_cdf (- ?d1) < strike * norm_cdf (- ?d2)"
    by (simp only: mult_less_cancel_right_pos[OF exp_gt_zero])
  then have "fwd * (1 - norm_cdf ?d1) < strike * (1 - norm_cdf ?d2)"
    by (simp only: norm_cdf_minus)
  then show ?thesis
    by (simp add: bs_call_def algebra_simps)
qed

lemma bs_call_lt_forward:
  assumes "0 < fwd" "0 < strike"
  shows "bs_call fwd strike s < fwd"
proof -
  have "fwd * norm_cdf (bs_d1 fwd strike s) < fwd * 1"
    using assms(1) norm_cdf_less_1 by (intro mult_strict_left_mono)
  moreover have "0 < strike * norm_cdf (bs_d1 fwd strike s - s)"
    using assms(2) norm_cdf_pos by simp
  ultimately show ?thesis by (simp add: bs_call_def)
qed






lemma call_price_bounds:
  assumes "0 < fwd" "0 < strike" "0 < pv"
  shows "max (pv * fwd - pv * strike) 0 < pv * bs_call fwd strike (sqrtvar_of vol texp)"
    and "pv * bs_call fwd strike (sqrtvar_of vol texp) < pv * fwd"
proof -
  let ?c = "bs_call fwd strike (sqrtvar_of vol texp)"
  note s = sqrtvar_of_pos[of vol texp]
  have "pv * (fwd - strike) < pv * ?c" "pv * 0 < pv * ?c"
    using bs_call_gt_forward[OF assms(1,2) s] bs_call_pos[OF assms(1,2) s] assms(3)
    by (simp_all only: mult_less_cancel_left_pos)
  then show "max (pv * fwd - pv * strike) 0 < pv * ?c"
    by (simp add: algebra_simps)
  show "pv * ?c < pv * fwd"
    using bs_call_lt_forward[OF assms(1,2)] assms(3) by (simp only: mult_less_cancel_left_pos)
qed

lemma put_price_bounds:
  assumes "0 < fwd" "0 < strike" "0 < pv"
  shows "max (pv * strike - pv * fwd) 0
           < pv * bs_call fwd strike (sqrtvar_of vol texp) - pv * (fwd - strike)"
    and "pv * bs_call fwd strike (sqrtvar_of vol texp) - pv * (fwd - strike) < pv * strike"
proof -
  let ?c = "pv * bs_call fwd strike (sqrtvar_of vol texp)"
  have a: "pv * fwd - pv * strike < ?c" "0 < ?c" "?c < pv * fwd"
    using call_price_bounds[OF assms, of vol texp] by simp_all
  have e: "pv * (fwd - strike) = pv * fwd - pv * strike"
    by (simp add: algebra_simps)
  show "max (pv * strike - pv * fwd) 0 < ?c - pv * (fwd - strike)"
    unfolding e max_less_iff_conj using a by linarith
  show "?c - pv * (fwd - strike) < pv * strike"
    unfolding e using a by linarith
qed

lemma interval_call:
  "upper pt = CALL \<Longrightarrow>
     option_price_interval fwd pv strike pt = Inr (max (pv * fwd - pv * strike) 0, pv * fwd)"
  by (simp add: option_price_interval_def Let_def)

lemma interval_put:
  "upper pt = PUT \<Longrightarrow>
     option_price_interval fwd pv strike pt = Inr (max (pv * strike - pv * fwd) 0, pv * strike)"
  by (simp add: option_price_interval_def Let_def pt_defs)


section \<open>The no-arbitrage interval\<close>

text \<open>
  Claim C1. For \<open>fwd > 0\<close>, \<open>strike > 0\<close>, \<open>pv > 0\<close>, a payoff type that is a call or a put
  and every \<open>vol\<close> and \<open>texp\<close>, \<open>option_price_interval\<close> returns \<open>(lower, upper)\<close> and
  \<open>option_price\<close> returns a price with \<open>lower \<le> price \<le> upper\<close>, where
  \<open>lower = max (pv * fwd - pv * strike) 0\<close> and \<open>upper = pv * fwd\<close> for a call, and
  \<open>lower = max (pv * strike - pv * fwd) 0\<close> and \<open>upper = pv * strike\<close> for a put.
\<close>

theorem price_within_interval:
  assumes "0 < fwd" "0 < strike" "0 < pv" "upper pt \<in> set [CALL, PUT]"
  shows "\<exists>lb ub p. option_price_interval fwd pv strike pt = Inr (lb, ub) \<and>
                   option_price fwd vol pv strike texp pt = Inr p \<and>
                   lb \<le> p \<and> p \<le> ub \<and>
                   lb = (if upper pt = CALL then max (pv * fwd - pv * strike) 0
                         else max (pv * strike - pv * fwd) 0) \<and>
                   ub = (if upper pt = CALL then pv * fwd else pv * strike)"
proof (cases "upper pt = CALL")
  case True
  then show ?thesis
    using call_price_bounds[OF assms(1-3), of vol texp]
    by (simp add: interval_call option_price_call[OF assms(1,2)] less_imp_le)
next
  case False
  then have "upper pt = PUT" using assms(4) by simp
  then show ?thesis
    using put_price_bounds[OF assms(1-3), of vol texp] False
    by (simp add: interval_put option_price_put[OF assms(1,2)] less_imp_le)
qed

theorem price_within_interval_witness:
  "\<exists>lb ub p. option_price_interval 100 (9 / 10) 90 ''put'' = Inr (lb, ub) \<and>
             option_price 100 (1 / 5) (9 / 10) 90 1 ''put'' = Inr p \<and>
             lb \<le> p \<and> p \<le> ub \<and> lb = 0 \<and> ub = 81"
proof -
  have u: "upper ''put'' = PUT"
    by (simp add: upper_def upper_char_def PUT_def)
  then have "upper ''put'' \<in> set [CALL, PUT]" "upper ''put'' \<noteq> CALL"
    by (simp_all add: pt_defs)
  then show ?thesis
    using price_within_interval[of 100 90 "9 / 10" "''put''" "1 / 5" 1] by simp
qed

section \<open>Monotonicity in the volatility\<close>



section \<open>The saturating distribution function\<close>











lemma bs_call_with_exact: "bs_call_with norm_cdf fwd strike s = bs_call fwd strike s"
  by (simp add: bs_call_with_def bs_call_def)















section \<open>Implied volatility outside the interval\<close>




end
